theory Spec2Isabelle
  imports Main "HOL-Library.Word"
begin

section \<open>CacheFlow: the in-memory store, its expiration model and the append-only log\<close>

text \<open>
  The development embeds \<^verbatim>\<open>internal/store/store.go\<close> (the store), the
  \<^verbatim>\<open>persistence\<close> package (the append-only file, AOF) and the command dispatch of
  \<^verbatim>\<open>internal/server/server.go\<close>.

  Modelling decisions:
  \<^item> A Go \<^verbatim>\<open>string\<close> is a \<open>string\<close> (a list of bytes). The functions of package
    \<^verbatim>\<open>strings\<close> are modelled on ASCII text: the white space characters are the six
    ASCII ones, and only \<open>a\<close> to \<open>z\<close> change under \<^verbatim>\<open>ToUpper\<close>.
  \<^item> A \<^verbatim>\<open>time.Time\<close> is an integer instant and a \<^verbatim>\<open>time.Duration\<close> an
    integer number of nanoseconds; \<^verbatim>\<open>time.Now()\<close> is an argument of every operation
    that reads the clock.
  \<^item> \<^verbatim>\<open>time.ParseDuration\<close> and \<^verbatim>\<open>Duration.String\<close> belong to the Go standard
    library, not to this repository: they are parameters (\<open>pd\<close> and \<open>ds\<close>) of the
    functions that call them.
  \<^item> The log file is the string of its bytes. Disk operations succeed: opening, reading,
    writing, flushing and syncing never return an error in the model. The one error of
    \<^verbatim>\<open>bufio.Scanner\<close> that does not come from the disk, a line that exceeds its buffer,
    is modelled.
  \<^item> The mutexes are not modelled: every operation is one atomic state transformer.
\<close>

subsection \<open>Package strings\<close>

definition is_space :: "char \<Rightarrow> bool" where
  "is_space c \<longleftrightarrow> c = CHR '' '' \<or> c = CHR 0x09 \<or> c = CHR 0x0A \<or> c = CHR 0x0B
     \<or> c = CHR 0x0C \<or> c = CHR 0x0D"

text \<open>\<^verbatim>\<open>strings.Fields\<close>: the maximal runs of non-space characters, in order.\<close>

fun fields_from :: "string \<Rightarrow> string \<Rightarrow> string list" where
  "fields_from cur [] = (if cur = [] then [] else [rev cur])"
| "fields_from cur (c # cs) =
     (if is_space c then (if cur = [] then fields_from [] cs else rev cur # fields_from [] cs)
      else fields_from (c # cur) cs)"

definition Fields :: "string \<Rightarrow> string list" where
  "Fields s = fields_from [] s"

definition TrimSpace :: "string \<Rightarrow> string" where
  "TrimSpace s = rev (dropWhile is_space (rev (dropWhile is_space s)))"

text \<open>An ASCII lower-case letter loses bit 5 (its code falls by 32); other bytes stay.\<close>

definition upper_char :: "char \<Rightarrow> char" where
  "upper_char c =
     (if (97::nat) \<le> of_char c \<and> of_char c \<le> (122::nat)
      then Char (digit0 c) (digit1 c) (digit2 c) (digit3 c) (digit4 c) False (digit6 c) (digit7 c)
      else c)"

definition ToUpper :: "string \<Rightarrow> string" where
  "ToUpper s = map upper_char s"

text \<open>\<^verbatim>\<open>strings.Join(parts, " ")\<close>.\<close>

fun Join :: "string list \<Rightarrow> string" where
  "Join [] = []"
| "Join [p] = p"
| "Join (p # q # ps) = p @ '' '' @ Join (q # ps)"

subsection \<open>Values and their \<^verbatim>\<open>%v\<close> rendering\<close>

text \<open>
  \<^verbatim>\<open>Item.Value\<close> is an \<^verbatim>\<open>interface{}\<close>. The server and the replay handler store strings;
  the tests also store an \<^verbatim>\<open>int\<close> and a \<^verbatim>\<open>[]byte\<close>. \<open>Sprint_v\<close> is
  \<^verbatim>\<open>fmt.Sprintf("%v", value)\<close> on these three kinds.
\<close>

datatype Val = VString string | VInt int | VBytes "8 word list"

fun dec_nat :: "nat \<Rightarrow> string" where
  "dec_nat n =
     (if n < 10 then [''0123456789'' ! n] else dec_nat (n div 10) @ [''0123456789'' ! (n mod 10)])"

declare dec_nat.simps [simp del]

definition dec_int :: "int \<Rightarrow> string" where
  "dec_int i = (if i < 0 then ''-'' @ dec_nat (nat (- i)) else dec_nat (nat i))"

fun Sprint_v :: "Val \<Rightarrow> string" where
  "Sprint_v (VString s) = s"
| "Sprint_v (VInt i) = dec_int i"
| "Sprint_v (VBytes bs) = ''['' @ Join (map (\<lambda>b. dec_nat (unat b)) bs) @ '']''"

subsection \<open>The append-only file (package persistence)\<close>

type_synonym Time = int
type_synonym Duration = int

text \<open>
  \<open>logfile\<close> is the field \<^verbatim>\<open>file\<close>: \<open>None\<close> for the nil handle of a disabled AOF and
  \<open>Some c\<close> for an open log file whose bytes are \<open>c\<close>. The buffered writer is flushed
  by every \<^verbatim>\<open>Write\<close>, so it holds nothing between calls and is not a field.
\<close>

record AOF =
  logfile :: "string option"
  isLoading :: bool

definition aof_Write :: "string \<Rightarrow> AOF \<Rightarrow> AOF" where
  "aof_Write command a =
     (case logfile a of
        None \<Rightarrow> a
      | Some c \<Rightarrow> if isLoading a then a else a\<lparr>logfile := Some (c @ command @ [CHR 0x0A])\<rparr>)"

subsection \<open>The store (internal/store/store.go)\<close>

record Item =
  Value :: Val
  Expiration :: "Time option"

record Store =
  items :: "string \<rightharpoonup> Item"
  aof :: "AOF option"

definition recordCommand :: "string list \<Rightarrow> Store \<Rightarrow> Store" where
  "recordCommand parts s =
     (case aof s of
        None \<Rightarrow> s
      | Some a \<Rightarrow> s\<lparr>aof := Some (aof_Write (Join parts) a)\<rparr>)"

definition Set :: "(Duration \<Rightarrow> string) \<Rightarrow> Time \<Rightarrow> string \<Rightarrow> Val \<Rightarrow> Duration \<Rightarrow> Store \<Rightarrow> Store" where
  "Set ds now key val ttl s =
     (let expiration = (if ttl > 0 then Some (now + ttl) else None);
          s1 = s\<lparr>items := (items s)(key \<mapsto> \<lparr>Value = val, Expiration = expiration\<rparr>)\<rparr>;
          parts = [''SET'', key, Sprint_v val] @ (if ttl > 0 then [ds ttl] else [])
      in recordCommand parts s1)"

definition Delete :: "string \<Rightarrow> Store \<Rightarrow> Store" where
  "Delete key s = recordCommand [''DELETE'', key] (s\<lparr>items := (items s)(key := None)\<rparr>)"

text \<open>The test of \<^verbatim>\<open>Get\<close>, \<^verbatim>\<open>Exists\<close> and the sweep: the expiration is not nil and \<open>now\<close> is after it.\<close>

definition expired :: "Time \<Rightarrow> Item \<Rightarrow> bool" where
  "expired now item = (case Expiration item of None \<Rightarrow> False | Some e \<Rightarrow> now > e)"

definition Get :: "Time \<Rightarrow> string \<Rightarrow> Store \<Rightarrow> Val option \<times> bool" where
  "Get now key s =
     (case items s key of
        None \<Rightarrow> (None, False)
      | Some item \<Rightarrow> if expired now item then (None, False) else (Some (Value item), True))"

definition Exists :: "Time \<Rightarrow> string \<Rightarrow> Store \<Rightarrow> bool" where
  "Exists now key s =
     (case items s key of
        None \<Rightarrow> False
      | Some item \<Rightarrow> if expired now item then False else True)"

text \<open>
  \<^verbatim>\<open>DeleteExpired\<close> ranges over the map and deletes the current key when its item has
  expired. Go leaves the iteration order open, so the order \<open>ks\<close> in which the keys are
  visited is an argument.
\<close>

definition sweep_step :: "Time \<Rightarrow> string \<Rightarrow> (string \<rightharpoonup> Item) \<Rightarrow> (string \<rightharpoonup> Item)" where
  "sweep_step now key m =
     (case m key of
        None \<Rightarrow> m
      | Some item \<Rightarrow> if expired now item then m(key := None) else m)"

definition DeleteExpired :: "Time \<Rightarrow> string list \<Rightarrow> Store \<Rightarrow> Store" where
  "DeleteExpired now ks s = s\<lparr>items := fold (sweep_step now) ks (items s)\<rparr>"


subsection \<open>Reading the log: integrity check and replay\<close>

text \<open>
  The lines of a file, whatever their length: a line ends at a line feed, and the bytes
  after the last line feed are a line when there are any. \<open>raw_lines\<close> keeps a trailing
  carriage return, \<open>file_lines\<close> drops it.
\<close>

definition dropCR :: "string \<Rightarrow> string" where
  "dropCR l = (if l \<noteq> [] \<and> last l = CHR 0x0D then butlast l else l)"

fun raw_from :: "string \<Rightarrow> string \<Rightarrow> string list" where
  "raw_from cur [] = (if cur = [] then [] else [rev cur])"
| "raw_from cur (c # cs) =
     (if c = CHR 0x0A then rev cur # raw_from [] cs else raw_from (c # cur) cs)"

definition raw_lines :: "string \<Rightarrow> string list" where
  "raw_lines content = raw_from [] content"

definition file_lines :: "string \<Rightarrow> string list" where
  "file_lines content = map dropCR (raw_lines content)"

text \<open>
  \<^verbatim>\<open>bufio.Scanner\<close> with the default split function and the default buffer. The buffer
  grows to \<^verbatim>\<open>MaxScanTokenSize\<close> bytes and no further: when it is full and holds no line
  feed, \<^verbatim>\<open>Scan\<close> returns false and \<^verbatim>\<open>Err\<close> is \<^verbatim>\<open>ErrTooLong\<close>. So the scanner returns
  the lines before the first line of \<^verbatim>\<open>MaxScanTokenSize\<close> bytes or more (counted before the
  line feed, a carriage return included), each without its trailing carriage return, and
  stops there with the error; without such a line it returns every line and no error.
\<close>

definition MaxScanTokenSize :: nat where
  "MaxScanTokenSize = 64 * 1024"

datatype scan_error = ErrTooLong

definition scan_tokens :: "string \<Rightarrow> string list" where
  "scan_tokens content =
     map dropCR (takeWhile (\<lambda>l. length l < MaxScanTokenSize) (raw_lines content))"

definition scan_Err :: "string \<Rightarrow> scan_error option" where
  "scan_Err content =
     (if list_all (\<lambda>l. length l < MaxScanTokenSize) (raw_lines content) then None
      else Some ErrTooLong)"

datatype aof_error =
    InvalidFormat nat string
  | InvalidSET nat string
  | InvalidDELETE nat string
  | UnknownCommand nat string
  | ErrorScanning scan_error

text \<open>The body of the loop of \<^verbatim>\<open>checkAOFIntegrity\<close> for line number \<open>n\<close>.\<close>

definition check_line :: "nat \<Rightarrow> string \<Rightarrow> aof_error option" where
  "check_line n text =
     (let line = TrimSpace text in
      if line = [] then None
      else let parts = Fields line in
        if length parts < 2 then Some (InvalidFormat n line)
        else let cmd = ToUpper (parts ! 0) in
          if cmd = ''SET'' then (if length parts < 3 then Some (InvalidSET n line) else None)
          else if cmd = ''DELETE'' then (if length parts \<noteq> 2 then Some (InvalidDELETE n line) else None)
          else Some (UnknownCommand n cmd))"

fun integrity_loop :: "nat \<Rightarrow> string list \<Rightarrow> aof_error option" where
  "integrity_loop lineNumber [] = None"
| "integrity_loop lineNumber (l # ls) =
     (case check_line (Suc lineNumber) l of
        Some e \<Rightarrow> Some e
      | None \<Rightarrow> integrity_loop (Suc lineNumber) ls)"

definition checkAOFIntegrity :: "string \<Rightarrow> aof_error option" where
  "checkAOFIntegrity content =
     (case integrity_loop 0 (scan_tokens content) of
        Some e \<Rightarrow> Some e
      | None \<Rightarrow> (case scan_Err content of Some e \<Rightarrow> Some (ErrorScanning e) | None \<Rightarrow> None))"

text \<open>
  \<^verbatim>\<open>persistence.New\<close>. \<open>disk\<close> is the content of the file named \<open>filename\<close> once it has
  been opened with \<^verbatim>\<open>O_CREATE\<close>: empty for a file that did not exist.
\<close>

definition persistence_New :: "string \<Rightarrow> string \<Rightarrow> aof_error + AOF" where
  "persistence_New filename disk =
     (if filename = [] then Inr \<lparr>logfile = None, isLoading = False\<rparr>
      else case checkAOFIntegrity disk of
        Some e \<Rightarrow> Inl e
      | None \<Rightarrow> Inr \<lparr>logfile = Some disk, isLoading = False\<rparr>)"

text \<open>
  The tail of a \<^verbatim>\<open>SET\<close> command, as the replay handler and the server both read it:
  with more than three tokens the last one is tried as a duration; when it parses it is
  the ttl and the value is the tokens between, otherwise the value is every token after
  the key.
\<close>

definition set_args :: "(string \<Rightarrow> Duration option) \<Rightarrow> string list \<Rightarrow> string \<times> Duration" where
  "set_args pd parts =
     (if length parts > 3 then
        (case pd (parts ! (length parts - 1)) of
           Some parsedTTL \<Rightarrow> (Join (drop 2 (take (length parts - 1) parts)), parsedTTL)
         | None \<Rightarrow> (Join (drop 2 parts), 0))
      else (Join (drop 2 parts), 0))"

datatype handler_error =
    HandlerInvalidSET string
  | HandlerInvalidDELETE string
  | HandlerUnknownCommand string

text \<open>The closure that \<^verbatim>\<open>store.New\<close> passes to \<^verbatim>\<open>Load\<close>.\<close>

definition replay_handler ::
  "(string \<Rightarrow> Duration option) \<Rightarrow> (Duration \<Rightarrow> string) \<Rightarrow> Time \<Rightarrow> string \<Rightarrow> Store
     \<Rightarrow> handler_error + Store" where
  "replay_handler pd ds now command store =
     (let parts = Fields command in
      if length parts = 0 then Inr store
      else let cmd = ToUpper (parts ! 0) in
        if cmd = ''SET'' then
          (if length parts < 3 then Inl (HandlerInvalidSET command)
           else let key = parts ! 1; (val, ttl) = set_args pd parts
                in Inr (Set ds now key (VString val) ttl store))
        else if cmd = ''DELETE'' then
          (if length parts \<noteq> 2 then Inl (HandlerInvalidDELETE command)
           else Inr (Delete (parts ! 1) store))
        else Inl (HandlerUnknownCommand cmd))"

datatype load_error =
    IntegrityBeforeLoad aof_error
  | ProcessingError nat handler_error
  | ErrorReading scan_error

text \<open>
  The scanning loop of \<^verbatim>\<open>Load\<close>. The handler receives the line number as well, only
  to read the clock of that call.
\<close>

fun load_loop ::
  "(nat \<Rightarrow> string \<Rightarrow> Store \<Rightarrow> handler_error + Store) \<Rightarrow> nat \<Rightarrow> string list \<Rightarrow> Store
     \<Rightarrow> load_error + Store" where
  "load_loop handler lineNumber [] st = Inr st"
| "load_loop handler lineNumber (l # ls) st =
     (let line = TrimSpace l in
      if line = [] then load_loop handler (Suc lineNumber) ls st
      else case handler (Suc lineNumber) line st of
        Inl e \<Rightarrow> Inl (ProcessingError (Suc lineNumber) e)
      | Inr st' \<Rightarrow> load_loop handler (Suc lineNumber) ls st')"

definition set_loading :: "bool \<Rightarrow> Store \<Rightarrow> Store" where
  "set_loading b st = st\<lparr>aof := map_option (\<lambda>a. a\<lparr>isLoading := b\<rparr>) (aof st)\<rparr>"

definition aof_Load ::
  "(nat \<Rightarrow> string \<Rightarrow> Store \<Rightarrow> handler_error + Store) \<Rightarrow> string \<Rightarrow> string \<Rightarrow> Store
     \<Rightarrow> load_error + Store" where
  "aof_Load handler filename disk st =
     (if filename = [] then Inr st
      else case checkAOFIntegrity disk of
        Some e \<Rightarrow> Inl (IntegrityBeforeLoad e)
      | None \<Rightarrow>
          (case load_loop handler 0 (scan_tokens disk) (set_loading True st) of
             Inl e \<Rightarrow> Inl e
           | Inr st' \<Rightarrow>
               (case scan_Err disk of
                  Some e \<Rightarrow> Inl (ErrorReading e)
                | None \<Rightarrow> Inr (set_loading False st'))))"

datatype store_error =
    FailedToInitializeAOF aof_error
  | FailedToLoad load_error

text \<open>
  \<^verbatim>\<open>store.New\<close>. \<open>clk n\<close> is the clock reading while line \<open>n\<close> of the log is replayed.
\<close>

definition store_New ::
  "(string \<Rightarrow> Duration option) \<Rightarrow> (Duration \<Rightarrow> string) \<Rightarrow> (nat \<Rightarrow> Time) \<Rightarrow> string \<Rightarrow> string
     \<Rightarrow> store_error + Store" where
  "store_New pd ds clk aofFilename disk =
     (let store = \<lparr>items = Map.empty, aof = None\<rparr> in
      if aofFilename \<noteq> [] then
        (case persistence_New aofFilename disk of
           Inl e \<Rightarrow> Inl (FailedToInitializeAOF e)
         | Inr a \<Rightarrow>
             (case aof_Load (\<lambda>n. replay_handler pd ds (clk n)) aofFilename disk
                     (store\<lparr>aof := Some a\<rparr>) of
                Inl e \<Rightarrow> Inl (FailedToLoad e)
              | Inr st \<Rightarrow> Inr st))
      else Inr store)"

subsection \<open>The command dispatch of the server (internal/server/server.go)\<close>

definition handleCommand ::
  "(string \<Rightarrow> Duration option) \<Rightarrow> (Duration \<Rightarrow> string) \<Rightarrow> Time \<Rightarrow> string \<Rightarrow> Store
     \<Rightarrow> string \<times> Store" where
  "handleCommand pd ds now cmd s =
     (let parts = Fields cmd in
      if length parts = 0 then (''ERROR: Empty command'', s)
      else let c = ToUpper (parts ! 0) in
        if c = ''SET'' then
          (if length parts < 3 then (''ERROR: SET requires key and value'', s)
           else let key = parts ! 1; (val, ttl) = set_args pd parts
                in (''OK'', Set ds now key (VString val) ttl s))
        else if c = ''GET'' then
          (if length parts \<noteq> 2 then (''ERROR: GET requires key'', s)
           else case Get now (parts ! 1) s of
                  (_, False) \<Rightarrow> (''NIL'', s)
                | (Some v, True) \<Rightarrow> (Sprint_v v, s)
                | (None, True) \<Rightarrow> (''<nil>'', s))
        else if c = ''DELETE'' then
          (if length parts \<noteq> 2 then (''ERROR: DELETE requires key'', s)
           else (''OK'', Delete (parts ! 1) s))
        else if c = ''EXISTS'' then
          (if length parts \<noteq> 2 then (''ERROR: EXISTS requires key'', s)
           else if Exists now (parts ! 1) s then (''1'', s) else (''0'', s))
        else (''ERROR: Unknown command'', s))"

subsection \<open>Sequences of store operations\<close>

datatype Op =
    SetOp Time string Val Duration
  | DeleteOp string
  | DeleteExpiredOp Time "string list"

fun apply_op :: "(Duration \<Rightarrow> string) \<Rightarrow> Op \<Rightarrow> Store \<Rightarrow> Store" where
  "apply_op ds (SetOp now key val ttl) s = Set ds now key val ttl s"
| "apply_op ds (DeleteOp key) s = Delete key s"
| "apply_op ds (DeleteExpiredOp now ks) s = DeleteExpired now ks s"

definition run_ops :: "(Duration \<Rightarrow> string) \<Rightarrow> Op list \<Rightarrow> Store \<Rightarrow> Store" where
  "run_ops ds ops s = fold (apply_op ds) ops s"

text \<open>An operation writes key \<open>k\<close> when it is a \<^verbatim>\<open>Set\<close> or a \<^verbatim>\<open>Delete\<close> of \<open>k\<close>.\<close>

fun writes_key :: "string \<Rightarrow> Op \<Rightarrow> bool" where
  "writes_key k (SetOp now key val ttl) = (key = k)"
| "writes_key k (DeleteOp key) = (key = k)"
| "writes_key k (DeleteExpiredOp now ks) = False"

subsection \<open>The grammar of the log and lenient replay, in the words of the specification\<close>

text \<open>
  A line violates the minimum-argument grammar when it has at least one token and is a
  \<^verbatim>\<open>SET\<close> with fewer than three tokens, a \<^verbatim>\<open>DELETE\<close> with other than two tokens, or
  starts with an unknown command word. A line without any token violates nothing.
\<close>

definition violates_grammar :: "string \<Rightarrow> bool" where
  "violates_grammar l =
     (case Fields l of
        [] \<Rightarrow> False
      | w # args \<Rightarrow>
          if ToUpper w = ''SET'' then length (w # args) < 3
          else if ToUpper w = ''DELETE'' then length (w # args) \<noteq> 2
          else True)"

text \<open>
  Replay as the specification words it: every non-empty line goes to the handler, a line
  the handler rejects is skipped, and replay goes on to the end of the log.
\<close>

fun replay_skipping ::
  "(nat \<Rightarrow> string \<Rightarrow> Store \<Rightarrow> handler_error + Store) \<Rightarrow> nat \<Rightarrow> string list \<Rightarrow> Store \<Rightarrow> Store" where
  "replay_skipping handler lineNumber [] st = st"
| "replay_skipping handler lineNumber (l # ls) st =
     (let line = TrimSpace l in
      if line = [] then replay_skipping handler (Suc lineNumber) ls st
      else case handler (Suc lineNumber) line st of
        Inl e \<Rightarrow> replay_skipping handler (Suc lineNumber) ls st
      | Inr st' \<Rightarrow> replay_skipping handler (Suc lineNumber) ls st')"

subsection \<open>What a log line can carry back\<close>








section \<open>Properties\<close>

subsection \<open>The map after each operation\<close>

lemma items_recordCommand [simp]: "items (recordCommand parts s) = items s"
  by (simp add: recordCommand_def split: option.splits)

lemma items_Set:
  "items (Set ds now key val ttl s) =
     (items s)(key \<mapsto> \<lparr>Value = val, Expiration = (if ttl > 0 then Some (now + ttl) else None)\<rparr>)"
  by (simp add: Set_def Let_def)

lemma items_Delete: "items (Delete key s) = (items s)(key := None)"
  by (simp add: Delete_def)

lemma fold_sweep_step:
  "fold (sweep_step now) ks m k =
     (if k \<in> set ks
      then (case m k of None \<Rightarrow> None | Some item \<Rightarrow> if expired now item then None else Some item)
      else m k)"
proof (induction ks arbitrary: m)
  case Nil
  show ?case by simp
next
  case (Cons key ks)
  show ?case
    by (simp add: Cons.IH) (auto simp: sweep_step_def split: option.splits)
qed

lemma items_DeleteExpired:
  "items (DeleteExpired now ks s) k =
     (if k \<in> set ks
      then (case items s k of None \<Rightarrow> None | Some item \<Rightarrow> if expired now item then None else Some item)
      else items s k)"
  by (simp add: DeleteExpired_def fold_sweep_step)

subsection \<open>Delete of an absent key, and the log line of Set\<close>

text \<open>
  Claim C1, as stated, fails: a key whose item has expired is logically absent
  (\<^verbatim>\<open>Get\<close> and \<^verbatim>\<open>Exists\<close> do not find it), yet \<^verbatim>\<open>Delete\<close> removes its item, so the map
  changes.
\<close>

theorem Delete_expired_key_counterexample:
  "Get 10 ''k'' \<lparr>items = [''k'' \<mapsto> \<lparr>Value = VString ''v'', Expiration = Some 5\<rparr>], aof = None\<rparr> = (None, False)
   \<and> \<not> Exists 10 ''k'' \<lparr>items = [''k'' \<mapsto> \<lparr>Value = VString ''v'', Expiration = Some 5\<rparr>], aof = None\<rparr>
   \<and> items (Delete ''k'' \<lparr>items = [''k'' \<mapsto> \<lparr>Value = VString ''v'', Expiration = Some 5\<rparr>], aof = None\<rparr>)
       \<noteq> items \<lparr>items = [''k'' \<mapsto> \<lparr>Value = VString ''v'', Expiration = Some 5\<rparr>], aof = None\<rparr>"
proof -
  let ?m = "[''k'' \<mapsto> \<lparr>Value = VString ''v'', Expiration = Some (5::int)\<rparr>]"
  have "(?m(''k'' := None)) ''k'' \<noteq> ?m ''k''" by simp
  then have "?m(''k'' := None) \<noteq> ?m" by metis
  then show ?thesis
    by (simp add: Get_def Exists_def expired_def items_Delete)
qed

text \<open>
  Claim C1, amended: for every store state and every key \<open>k\<close> that has no item in the map,
  \<^verbatim>\<open>Delete(k)\<close> leaves the key-to-item map unchanged; and \<^verbatim>\<open>Set\<close> on a store whose log
  file is open and that is not replaying appends exactly one line to the log, the command
  \<^verbatim>\<open>SET key value [ttl]\<close>, whether or not the key existed before.
\<close>

theorem Delete_absent_key_keeps_map_and_Set_logs:
  "(items s k = None \<longrightarrow> items (Delete k s) = items s)
   \<and> (aof s = Some a \<and> logfile a = Some c \<and> \<not> isLoading a \<longrightarrow>
        aof (Set ds now k v ttl s) =
          Some (a\<lparr>logfile := Some (c @ Join ([''SET'', k, Sprint_v v] @ (if 0 < ttl then [ds ttl] else []))
                                   @ [CHR 0x0A])\<rparr>))"
proof (intro conjI impI)
  assume "items s k = None"
  then show "items (Delete k s) = items s"
    by (simp add: items_Delete fun_upd_idem)
next
  assume "aof s = Some a \<and> logfile a = Some c \<and> \<not> isLoading a"
  then show "aof (Set ds now k v ttl s) =
          Some (a\<lparr>logfile := Some (c @ Join ([''SET'', k, Sprint_v v] @ (if 0 < ttl then [ds ttl] else []))
                                   @ [CHR 0x0A])\<rparr>)"
    by (simp add: Set_def recordCommand_def aof_Write_def Let_def)
qed

theorem Delete_absent_key_keeps_map_and_Set_logs_witness:
  "items \<lparr>items = Map.empty, aof = Some \<lparr>logfile = Some [], isLoading = False\<rparr>\<rparr> ''k'' = None
   \<and> items (Delete ''k'' \<lparr>items = Map.empty, aof = Some \<lparr>logfile = Some [], isLoading = False\<rparr>\<rparr>) = Map.empty
   \<and> aof (Set (\<lambda>d. ''5ns'') 0 ''k'' (VString ''v'') 0
            \<lparr>items = Map.empty, aof = Some \<lparr>logfile = Some [], isLoading = False\<rparr>\<rparr>)
       = Some \<lparr>logfile = Some (''SET k v'' @ [CHR 0x0A]), isLoading = False\<rparr>"
  using Delete_absent_key_keeps_map_and_Set_logs
    [of "\<lparr>items = Map.empty, aof = Some \<lparr>logfile = Some [], isLoading = False\<rparr>\<rparr>" "''k''"
        "\<lparr>logfile = Some [], isLoading = False\<rparr>" "[]" "\<lambda>d. ''5ns''" 0 "VString ''v''" 0]
  by simp

text \<open>
  What \<^verbatim>\<open>Delete\<close> of store.go writes to the log for a key that has no item: it calls
  \<^verbatim>\<open>recordCommand\<close> without looking at the map, so the line \<^verbatim>\<open>DELETE k\<close> is appended.
\<close>

lemma Delete_absent_key_is_logged:
  "aof (Delete ''k'' \<lparr>items = Map.empty, aof = Some \<lparr>logfile = Some [], isLoading = False\<rparr>\<rparr>)
     = Some \<lparr>logfile = Some (''DELETE k'' @ [CHR 0x0A]), isLoading = False\<rparr>"
  by (simp add: Delete_def recordCommand_def aof_Write_def)

subsection \<open>Expiration seen by Get\<close>

text \<open>
  Claim C5, as stated, fails at the instant \<open>now + ttl\<close> itself: \<^verbatim>\<open>Get\<close> tests
  \<^verbatim>\<open>time.Now().After(expiration)\<close>, which is strict, so the value is still returned then.
\<close>

theorem Get_at_expiration_instant_counterexample:
  "Get (0 + 5) ''k'' (Set (\<lambda>d. ''5ns'') 0 ''k'' (VString ''v'') 5 \<lparr>items = Map.empty, aof = None\<rparr>)
     = (Some (VString ''v''), True)"
  by (simp add: Get_def Set_def recordCommand_def expired_def)

text \<open>
  Claim C5, amended: for every key \<open>k\<close>, value \<open>v\<close> and \<open>ttl > 0\<close>, after \<^verbatim>\<open>Set(k,v,ttl)\<close> at
  instant \<open>now\<close>, \<^verbatim>\<open>Get(k)\<close> at instant \<open>t\<close> returns \<open>(v, true)\<close> when \<open>t \<le> now + ttl\<close> and
  \<open>(nil, false)\<close> when \<open>t > now + ttl\<close>, by the lazy check alone: no sweep has run.
\<close>

theorem Get_after_Set_with_ttl:
  assumes "0 < ttl"
  shows "Get t k (Set ds now k v ttl s) = (if t \<le> now + ttl then (Some v, True) else (None, False))"
  using assms by (simp add: Get_def items_Set expired_def)

theorem Get_after_Set_with_ttl_witness:
  "(0::int) < 5 \<and>
   Get 5 ''k'' (Set (\<lambda>d. ''5ns'') 0 ''k'' (VString ''v'') 5 \<lparr>items = Map.empty, aof = None\<rparr>)
     = (Some (VString ''v''), True) \<and>
   Get 6 ''k'' (Set (\<lambda>d. ''5ns'') 0 ''k'' (VString ''v'') 5 \<lparr>items = Map.empty, aof = None\<rparr>)
     = (None, False)"
  using Get_after_Set_with_ttl [of 5 5 "''k''" "\<lambda>d. ''5ns''" 0 "VString ''v''" "\<lparr>items = Map.empty, aof = None\<rparr>"]
        Get_after_Set_with_ttl [of 5 6 "''k''" "\<lambda>d. ''5ns''" 0 "VString ''v''" "\<lparr>items = Map.empty, aof = None\<rparr>"]
  by simp

subsection \<open>The sweep\<close>

text \<open>
  Claim C6, as stated, fails for an item whose expiration equals the sweep's timestamp:
  \<^verbatim>\<open>now.After(expiration)\<close> is false there and the item stays.
\<close>

theorem DeleteExpired_at_expiration_instant_counterexample:
  "items (DeleteExpired 10 [''k'']
      \<lparr>items = [''k'' \<mapsto> \<lparr>Value = VString ''v'', Expiration = Some 10\<rparr>], aof = None\<rparr>) ''k''
     = Some \<lparr>Value = VString ''v'', Expiration = Some 10\<rparr>"
  by (simp add: DeleteExpired_def sweep_step_def expired_def)

text \<open>
  Claim C6, amended: for every store state and sweep timestamp \<open>t\<close>, whatever the order
  \<open>ks\<close> in which the keys of the map are visited, \<^verbatim>\<open>DeleteExpired()\<close> removes exactly the
  items whose expiration is strictly before \<open>t\<close> and leaves every other item (expiration at
  or after \<open>t\<close>, or no expiration) unchanged; the log is not touched.
\<close>

theorem DeleteExpired_removes_strictly_expired:
  assumes "set ks = dom (items s)"
  shows "items (DeleteExpired t ks s) k =
           (case items s k of
              None \<Rightarrow> None
            | Some item \<Rightarrow>
                (case Expiration item of
                   None \<Rightarrow> Some item
                 | Some e \<Rightarrow> if e < t then None else Some item))
         \<and> aof (DeleteExpired t ks s) = aof s"
proof
  have "k \<notin> set ks \<Longrightarrow> items s k = None"
    using assms by (auto simp: dom_def)
  then show "items (DeleteExpired t ks s) k =
           (case items s k of
              None \<Rightarrow> None
            | Some item \<Rightarrow>
                (case Expiration item of
                   None \<Rightarrow> Some item
                 | Some e \<Rightarrow> if e < t then None else Some item))"
    by (auto simp: items_DeleteExpired expired_def split: option.splits)
  show "aof (DeleteExpired t ks s) = aof s"
    by (simp add: DeleteExpired_def)
qed

theorem DeleteExpired_removes_strictly_expired_witness:
  "set [''a'', ''b'', ''c''] = dom (items \<lparr>items = [''a'' \<mapsto> \<lparr>Value = VString ''1'', Expiration = Some 5\<rparr>,
            ''b'' \<mapsto> \<lparr>Value = VString ''2'', Expiration = Some 10\<rparr>,
            ''c'' \<mapsto> \<lparr>Value = VString ''3'', Expiration = None\<rparr>], aof = None\<rparr>) \<and>
   items (DeleteExpired 10 [''a'', ''b'', ''c'']
      \<lparr>items = [''a'' \<mapsto> \<lparr>Value = VString ''1'', Expiration = Some 5\<rparr>,
            ''b'' \<mapsto> \<lparr>Value = VString ''2'', Expiration = Some 10\<rparr>,
            ''c'' \<mapsto> \<lparr>Value = VString ''3'', Expiration = None\<rparr>], aof = None\<rparr>) ''a'' = None"
proof -
  let ?s = "\<lparr>items = [''a'' \<mapsto> \<lparr>Value = VString ''1'', Expiration = Some 5\<rparr>,
            ''b'' \<mapsto> \<lparr>Value = VString ''2'', Expiration = Some 10\<rparr>,
            ''c'' \<mapsto> \<lparr>Value = VString ''3'', Expiration = None\<rparr>], aof = None\<rparr>"
  have h: "set [''a'', ''b'', ''c''] = dom (items ?s)" by auto
  show ?thesis
    using h DeleteExpired_removes_strictly_expired [OF h, of 10 "''a''"] by simp
qed

subsection \<open>Items without expiration\<close>

lemma items_apply_op_other:
  "\<not> writes_key k op \<Longrightarrow> items s k = Some \<lparr>Value = v, Expiration = None\<rparr>
     \<Longrightarrow> items (apply_op ds op s) k = Some \<lparr>Value = v, Expiration = None\<rparr>"
  by (cases op) (auto simp: items_Set items_Delete items_DeleteExpired expired_def)

lemma items_run_ops_other:
  "\<forall>op \<in> set ops. \<not> writes_key k op \<Longrightarrow> items s k = Some \<lparr>Value = v, Expiration = None\<rparr>
     \<Longrightarrow> items (run_ops ds ops s) k = Some \<lparr>Value = v, Expiration = None\<rparr>"
  unfolding run_ops_def
  by (induction ops arbitrary: s) (auto simp: items_apply_op_other)

text \<open>
  Claim C7: for every key \<open>k\<close>, value \<open>v\<close> and \<open>ttl \<le> 0\<close>, the item stored by
  \<^verbatim>\<open>Set(k,v,ttl)\<close> has no expiration. After any later sequence of operations that does not
  write \<open>k\<close> (sets and deletes of other keys, sweeps at any timestamps and in any order),
  the item is still in the map, and \<^verbatim>\<open>Get(k)\<close> returns \<open>(v, true)\<close> and \<^verbatim>\<open>Exists(k)\<close> holds
  at every instant \<open>t\<close>; an explicit \<^verbatim>\<open>Delete(k)\<close> ends this.
\<close>

theorem Set_without_ttl_never_expires:
  assumes "ttl \<le> 0" and "\<forall>op \<in> set ops. \<not> writes_key k op"
  shows "items (Set ds now k v ttl s) k = Some \<lparr>Value = v, Expiration = None\<rparr>
       \<and> items (run_ops ds ops (Set ds now k v ttl s)) k = Some \<lparr>Value = v, Expiration = None\<rparr>
       \<and> Get t k (run_ops ds ops (Set ds now k v ttl s)) = (Some v, True)
       \<and> Exists t k (run_ops ds ops (Set ds now k v ttl s))
       \<and> Get t k (Delete k (run_ops ds ops (Set ds now k v ttl s))) = (None, False)"
proof -
  have a: "items (Set ds now k v ttl s) k = Some \<lparr>Value = v, Expiration = None\<rparr>"
    using assms(1) by (simp add: items_Set)
  have b: "items (run_ops ds ops (Set ds now k v ttl s)) k = Some \<lparr>Value = v, Expiration = None\<rparr>"
    using assms(2) a by (rule items_run_ops_other)
  show ?thesis
    using a b by (simp add: Get_def Exists_def expired_def items_Delete)
qed

theorem Set_without_ttl_never_expires_witness:
  "(0::int) \<le> 0
   \<and> list_all (\<lambda>op. \<not> writes_key ''k'' op)
        [DeleteExpiredOp 1000 [''k'', ''j''], SetOp 5 ''j'' (VInt 7) 3, DeleteOp ''j'']
   \<and> Get 2000 ''k''
       (run_ops (\<lambda>d. ''3ns'') [DeleteExpiredOp 1000 [''k'', ''j''], SetOp 5 ''j'' (VInt 7) 3, DeleteOp ''j'']
          (Set (\<lambda>d. ''3ns'') 0 ''k'' (VString ''v'') 0 \<lparr>items = Map.empty, aof = None\<rparr>))
     = (Some (VString ''v''), True)"
proof -
  have h1: "(0::int) \<le> 0" by simp
  have h2: "\<forall>op \<in> set [DeleteExpiredOp 1000 [''k'', ''j''], SetOp 5 ''j'' (VInt 7) 3, DeleteOp ''j''].
        \<not> writes_key ''k'' op" by simp
  show ?thesis
    using h1 h2 Set_without_ttl_never_expires [OF h1 h2, of "\<lambda>d. ''3ns''" 0 "VString ''v''"
        "\<lparr>items = Map.empty, aof = None\<rparr>" 2000]
    by simp
qed

subsection \<open>The wire commands SET and GET\<close>

text \<open>
  Claim C8: for every wire command with at least three tokens whose first token is
  \<^verbatim>\<open>SET\<close> in any letter case and whose last token does not parse as a duration, the command
  is accepted: the reply is \<^verbatim>\<open>OK\<close>, the value stored under the second token is the join of
  every token after the key (the last one included), and the ttl is zero, so the item has
  no expiration.
\<close>

theorem SET_trailing_token_not_a_duration:
  assumes "3 \<le> length (Fields cmd)" and "ToUpper (Fields cmd ! 0) = ''SET''"
    and "pd (Fields cmd ! (length (Fields cmd) - 1)) = None"
  shows "handleCommand pd ds now cmd s
           = (''OK'', Set ds now (Fields cmd ! 1) (VString (Join (drop 2 (Fields cmd)))) 0 s)
         \<and> items (snd (handleCommand pd ds now cmd s)) (Fields cmd ! 1)
           = Some \<lparr>Value = VString (Join (drop 2 (Fields cmd))), Expiration = None\<rparr>"
proof -
  have "set_args pd (Fields cmd) = (Join (drop 2 (Fields cmd)), 0)"
    using assms(3) by (simp add: set_args_def)
  moreover have "length (Fields cmd) \<noteq> 0" and "\<not> length (Fields cmd) < 3"
    using assms(1) by auto
  ultimately have "handleCommand pd ds now cmd s
           = (''OK'', Set ds now (Fields cmd ! 1) (VString (Join (drop 2 (Fields cmd)))) 0 s)"
    using assms(2) by (simp add: handleCommand_def Let_def)
  then show ?thesis
    by (simp add: Set_def Let_def)
qed

theorem SET_trailing_token_not_a_duration_witness:
  "Fields ''set greeting  hello world'' = [''set'', ''greeting'', ''hello'', ''world'']
   \<and> (\<lambda>t. if t = ''5s'' then Some 5000000000 else None) ''world'' = None
   \<and> handleCommand (\<lambda>t. if t = ''5s'' then Some 5000000000 else None) (\<lambda>d. ''5s'') 0
        ''set greeting  hello world'' \<lparr>items = Map.empty, aof = None\<rparr>
      = (''OK'', \<lparr>items = [''greeting'' \<mapsto> \<lparr>Value = VString ''hello world'', Expiration = None\<rparr>],
                aof = None\<rparr>)"
proof -
  let ?cmd = "''set greeting  hello world''"
  let ?pd = "\<lambda>t. if t = ''5s'' then Some (5000000000::int) else None"
  have f: "Fields ?cmd = [''set'', ''greeting'', ''hello'', ''world'']"
    by (simp add: Fields_def is_space_def)
  have h1: "3 \<le> length (Fields ?cmd)" by (simp add: f)
  have h2: "ToUpper (Fields ?cmd ! 0) = ''SET''" by (simp add: f ToUpper_def upper_char_def)
  have h3: "?pd (Fields ?cmd ! (length (Fields ?cmd) - 1)) = None" by (simp add: f)
  show ?thesis
    using SET_trailing_token_not_a_duration [of ?cmd ?pd "\<lambda>d. ''5s''" 0
            "\<lparr>items = Map.empty, aof = None\<rparr>", OF h1 h2 h3]
    by (simp add: f Set_def recordCommand_def)
qed

text \<open>
  Claim C10: after the wire command \<^verbatim>\<open>SET k NIL\<close> on an empty store, key \<open>k\<close> is present
  with the value \<^verbatim>\<open>NIL\<close> and key \<open>j\<close> is absent, and the replies to \<^verbatim>\<open>GET k\<close> and
  \<^verbatim>\<open>GET j\<close> are the same string \<^verbatim>\<open>NIL\<close>: the reply does not tell a present key from an
  absent one.
\<close>

theorem GET_of_stored_NIL_equals_GET_of_absent_key:
  "Get 1 ''k'' (snd (handleCommand pd ds 0 ''SET k NIL'' \<lparr>items = Map.empty, aof = None\<rparr>))
     = (Some (VString ''NIL''), True)
   \<and> Get 1 ''j'' (snd (handleCommand pd ds 0 ''SET k NIL'' \<lparr>items = Map.empty, aof = None\<rparr>))
     = (None, False)
   \<and> fst (handleCommand pd ds 1 ''GET k''
        (snd (handleCommand pd ds 0 ''SET k NIL'' \<lparr>items = Map.empty, aof = None\<rparr>))) = ''NIL''
   \<and> fst (handleCommand pd ds 1 ''GET j''
        (snd (handleCommand pd ds 0 ''SET k NIL'' \<lparr>items = Map.empty, aof = None\<rparr>))) = ''NIL''"
  by (simp add: handleCommand_def Fields_def is_space_def ToUpper_def upper_char_def set_args_def
      Set_def recordCommand_def Get_def expired_def)

subsection \<open>Facts about Fields and TrimSpace\<close>

lemma fields_from_snoc_space:
  "is_space c \<Longrightarrow> fields_from cur (xs @ [c]) = fields_from cur xs"
  by (induction xs arbitrary: cur) auto

lemma fields_from_dropWhile:
  "fields_from [] (dropWhile is_space s) = fields_from [] s"
  by (induction s) auto

lemma fields_from_drop_trailing:
  "fields_from cur (rev (dropWhile is_space (rev s))) = fields_from cur s"
proof (induction s rule: rev_induct)
  case Nil
  show ?case by simp
next
  case (snoc c s)
  then show ?case by (simp add: fields_from_snoc_space)
qed

lemma Fields_TrimSpace: "Fields (TrimSpace s) = Fields s"
  by (simp add: Fields_def TrimSpace_def fields_from_drop_trailing fields_from_dropWhile)

lemma fields_from_Nil_iff:
  "fields_from cur s = [] \<longleftrightarrow> cur = [] \<and> (\<forall>c \<in> set s. is_space c)"
  by (induction s arbitrary: cur) auto

lemma Fields_Nil_iff: "Fields s = [] \<longleftrightarrow> (\<forall>c \<in> set s. is_space c)"
  by (simp add: Fields_def fields_from_Nil_iff)

lemma TrimSpace_Nil_iff: "TrimSpace s = [] \<longleftrightarrow> (\<forall>c \<in> set s. is_space c)"
proof
  assume "TrimSpace s = []"
  then have a: "\<forall>c \<in> set (dropWhile is_space s). is_space c"
    by (simp add: TrimSpace_def dropWhile_eq_Nil_conv)
  have "dropWhile is_space s = []"
  proof (rule ccontr)
    assume n: "dropWhile is_space s \<noteq> []"
    then have "\<not> is_space (hd (dropWhile is_space s))" by (rule hd_dropWhile)
    moreover have "hd (dropWhile is_space s) \<in> set (dropWhile is_space s)" using n by simp
    ultimately show False using a by blast
  qed
  then show "\<forall>c \<in> set s. is_space c" by (simp add: dropWhile_eq_Nil_conv)
next
  assume "\<forall>c \<in> set s. is_space c"
  then show "TrimSpace s = []"
    by (auto simp: TrimSpace_def dest: set_dropWhileD)
qed

lemma TrimSpace_Nil_Fields: "TrimSpace s = [] \<longleftrightarrow> Fields s = []"
  by (simp add: TrimSpace_Nil_iff Fields_Nil_iff)

subsection \<open>The integrity check\<close>

text \<open>
  The check of one line agrees with the grammar of the specification: a line passes
  exactly when it does not violate the grammar, so the whole check passes exactly when no
  line of the file violates it.
\<close>

lemma check_line_None_iff: "check_line n l = None \<longleftrightarrow> \<not> violates_grammar l"
proof (cases "Fields l")
  case Nil
  then show ?thesis
    by (simp add: check_line_def violates_grammar_def TrimSpace_Nil_Fields)
next
  case (Cons w args)
  then have "TrimSpace l \<noteq> []" by (simp add: TrimSpace_Nil_Fields)
  then show ?thesis
    using Cons
    by (cases args) (auto simp: check_line_def violates_grammar_def Fields_TrimSpace Let_def)
qed

lemma integrity_loop_None_iff:
  "integrity_loop n ls = None \<longleftrightarrow> (\<forall>l \<in> set ls. \<not> violates_grammar l)"
proof (induction ls arbitrary: n)
  case Nil
  show ?case by simp
next
  case (Cons l ls)
  show ?case
  proof (cases "check_line (Suc n) l")
    case None
    then show ?thesis using Cons.IH check_line_None_iff [of "Suc n" l] by simp
  next
    case (Some e)
    then show ?thesis using check_line_None_iff [of "Suc n" l] by simp
  qed
qed

lemma scan_tokens_all_short:
  assumes "\<forall>l \<in> set (raw_lines disk). length l < MaxScanTokenSize"
  shows "scan_tokens disk = file_lines disk"
proof -
  have "takeWhile (\<lambda>l. length l < MaxScanTokenSize) (raw_lines disk) = raw_lines disk"
    using assms by (simp only: takeWhile_eq_all_conv)
  then show ?thesis
    by (simp only: scan_tokens_def file_lines_def)
qed

lemma scan_Err_None_iff:
  "scan_Err disk = None \<longleftrightarrow> (\<forall>l \<in> set (raw_lines disk). length l < MaxScanTokenSize)"
  by (simp add: scan_Err_def list_all_iff)

text \<open>
  The whole check passes exactly when every line of the file is shorter than the
  scanner's limit and no line violates the grammar.
\<close>

lemma checkAOFIntegrity_None_iff:
  "checkAOFIntegrity disk = None \<longleftrightarrow>
     (\<forall>l \<in> set (raw_lines disk). length l < MaxScanTokenSize)
   \<and> (\<forall>l \<in> set (file_lines disk). \<not> violates_grammar l)"
proof (cases "\<forall>l \<in> set (raw_lines disk). length l < MaxScanTokenSize")
  case True
  then have "scan_tokens disk = file_lines disk" and "scan_Err disk = None"
    by (simp_all add: scan_tokens_all_short scan_Err_None_iff)
  then have "checkAOFIntegrity disk = integrity_loop 0 (file_lines disk)"
    by (simp add: checkAOFIntegrity_def split: option.splits)
  then show ?thesis
    using True by (simp add: integrity_loop_None_iff)
next
  case False
  then have "scan_Err disk \<noteq> None"
    by (simp add: scan_Err_None_iff)
  then have "checkAOFIntegrity disk \<noteq> None"
    by (auto simp: checkAOFIntegrity_def split: option.splits)
  then show ?thesis using False by auto
qed

text \<open>
  Claim C4: for every log file with at least one line that violates the minimum-argument
  grammar, store construction over that file returns an error and no store. The error is
  the one \<^verbatim>\<open>persistence.New\<close> returns from its integrity check, which runs before
  \<^verbatim>\<open>Load\<close> is called: no command of the log has been replayed.
\<close>

theorem violating_line_fails_construction:
  assumes "aofFilename \<noteq> []" and "\<exists>l \<in> set (file_lines disk). violates_grammar l"
  shows "\<exists>e. persistence_New aofFilename disk = Inl e
            \<and> store_New pd ds clk aofFilename disk = Inl (FailedToInitializeAOF e)"
proof -
  have "checkAOFIntegrity disk \<noteq> None"
    using assms(2) by (simp add: checkAOFIntegrity_None_iff)
  then obtain e where "checkAOFIntegrity disk = Some e" by auto
  then have "persistence_New aofFilename disk = Inl e"
    using assms(1) by (simp add: persistence_New_def)
  then show ?thesis
    using assms(1) by (simp add: store_New_def)
qed

theorem violating_line_fails_construction_witness:
  "violates_grammar ''SET onlykey''
   \<and> file_lines (''SET a 1\<newline>SET onlykey\<newline>'') = [''SET a 1'', ''SET onlykey'']
   \<and> store_New (\<lambda>t. None) (\<lambda>d. ''5s'') (\<lambda>n. 0) ''aof.log''
        (''SET a 1\<newline>SET onlykey\<newline>'')
      = Inl (FailedToInitializeAOF (InvalidSET 2 ''SET onlykey''))"
proof -
  let ?disk = "''SET a 1\<newline>SET onlykey\<newline>''"
  have l: "file_lines ?disk = [''SET a 1'', ''SET onlykey'']"
    by (simp add: file_lines_def raw_lines_def dropCR_def)
  have v: "violates_grammar ''SET onlykey''"
    by (simp add: violates_grammar_def Fields_def is_space_def ToUpper_def upper_char_def)
  have h1: "''aof.log'' \<noteq> []" by simp
  have h2: "\<exists>l \<in> set (file_lines ?disk). violates_grammar l"
    using v by (simp add: l)
  have p: "persistence_New ''aof.log'' ?disk = Inl (InvalidSET 2 ''SET onlykey'')"
    by (simp add: persistence_New_def checkAOFIntegrity_def scan_tokens_def scan_Err_def
        raw_lines_def MaxScanTokenSize_def dropCR_def check_line_def TrimSpace_def
        Fields_def is_space_def ToUpper_def upper_char_def)
  show ?thesis
    using violating_line_fails_construction [OF h1 h2, of "\<lambda>t. None" "\<lambda>d. ''5s''" "\<lambda>n. 0"] v l p
    by simp
qed

subsection \<open>Replay\<close>

lemma replay_handler_accepts:
  assumes "\<not> violates_grammar l" and "TrimSpace l \<noteq> []"
  shows "\<exists>st'. replay_handler pd ds now (TrimSpace l) st = Inr st'"
proof -
  obtain w args where f: "Fields l = w # args"
    using assms(2) by (cases "Fields l") (auto simp: TrimSpace_Nil_Fields)
  show ?thesis
    using assms(1) f
    by (auto simp: replay_handler_def violates_grammar_def Fields_TrimSpace Let_def
        split: prod.splits if_splits)
qed

lemma load_loop_clean:
  assumes "\<forall>l \<in> set ls. \<not> violates_grammar l"
  shows "load_loop (\<lambda>n. replay_handler pd ds (clk n)) n ls st
           = Inr (replay_skipping (\<lambda>n. replay_handler pd ds (clk n)) n ls st)"
  using assms
proof (induction ls arbitrary: n st)
  case Nil
  show ?case by simp
next
  case (Cons l ls)
  show ?case
  proof (cases "TrimSpace l = []")
    case True
    then show ?thesis using Cons by simp
  next
    case False
    then obtain st' where "replay_handler pd ds (clk (Suc n)) (TrimSpace l) st = Inr st'"
      using replay_handler_accepts [of l pd ds "clk (Suc n)" st] Cons.prems by auto
    then show ?thesis using False Cons by simp
  qed
qed

text \<open>
  Claim C3, as stated, fails: a log whose first line is the unknown command \<^verbatim>\<open>FOO\<close>
  makes \<^verbatim>\<open>Load\<close> return the error of its integrity pre-scan, and the well-formed line
  after it is not applied. The scanning loop by itself stops as well: the handler returns
  an error for the line and the loop returns it.
\<close>

theorem Load_aborts_on_malformed_line_counterexample:
  "aof_Load (\<lambda>n. replay_handler (\<lambda>t. None) (\<lambda>d. ''5s'') 0) ''aof.log''
      ''FOO\<newline>SET a b\<newline>''
      \<lparr>items = Map.empty, aof = Some \<lparr>logfile = Some ''FOO\<newline>SET a b\<newline>'',
                                      isLoading = False\<rparr>\<rparr>
     = Inl (IntegrityBeforeLoad (InvalidFormat 1 ''FOO''))
   \<and> load_loop (\<lambda>n. replay_handler (\<lambda>t. None) (\<lambda>d. ''5s'') 0) 0 [''FOO'', ''SET a b'']
      \<lparr>items = Map.empty, aof = Some \<lparr>logfile = Some ''FOO\<newline>SET a b\<newline>'',
                                      isLoading = True\<rparr>\<rparr>
     = Inl (ProcessingError 1 (HandlerUnknownCommand ''FOO''))"
  by (simp add: aof_Load_def checkAOFIntegrity_def scan_tokens_def scan_Err_def raw_lines_def
      MaxScanTokenSize_def dropCR_def check_line_def
      TrimSpace_def Fields_def is_space_def ToUpper_def upper_char_def replay_handler_def)

lemma raw_from_no_newline:
  "CHR 0x0A \<notin> set xs \<Longrightarrow> raw_from cur xs = (if cur = [] \<and> xs = [] then [] else [rev cur @ xs])"
  by (induction xs arbitrary: cur) auto

text \<open>
  Claim C3, amended: for every log file processed by \<^verbatim>\<open>Load\<close>, when every line is
  shorter than the scanner's limit of 64 KiB and no line violates the grammar, \<^verbatim>\<open>Load\<close>
  returns success and its result is that of the lenient replay (every non-empty line
  applied in order, empty lines skipped); when some line is malformed, unrecognized, or
  64 KiB long or longer, \<^verbatim>\<open>Load\<close> returns the error of its integrity pre-scan and applies
  no line.
\<close>

theorem Load_replays_clean_log_and_rejects_malformed:
  assumes "filename \<noteq> []"
  shows "((\<forall>l \<in> set (raw_lines disk). length l < MaxScanTokenSize)
          \<and> (\<forall>l \<in> set (file_lines disk). \<not> violates_grammar l) \<longrightarrow>
            aof_Load (\<lambda>n. replay_handler pd ds (clk n)) filename disk st
              = Inr (set_loading False
                      (replay_skipping (\<lambda>n. replay_handler pd ds (clk n)) 0 (file_lines disk)
                         (set_loading True st))))
       \<and> ((\<exists>l \<in> set (raw_lines disk). MaxScanTokenSize \<le> length l)
          \<or> (\<exists>l \<in> set (file_lines disk). violates_grammar l) \<longrightarrow>
            (\<exists>e. aof_Load (\<lambda>n. replay_handler pd ds (clk n)) filename disk st
                    = Inl (IntegrityBeforeLoad e)))"
proof (intro conjI impI)
  assume ok: "(\<forall>l \<in> set (raw_lines disk). length l < MaxScanTokenSize)
          \<and> (\<forall>l \<in> set (file_lines disk). \<not> violates_grammar l)"
  then have i: "checkAOFIntegrity disk = None"
    by (simp add: checkAOFIntegrity_None_iff)
  have t: "scan_tokens disk = file_lines disk" and e: "scan_Err disk = None"
    using ok by (simp_all add: scan_tokens_all_short scan_Err_None_iff)
  have clean: "\<forall>l \<in> set (file_lines disk). \<not> violates_grammar l"
    using ok by simp
  show "aof_Load (\<lambda>n. replay_handler pd ds (clk n)) filename disk st
              = Inr (set_loading False
                      (replay_skipping (\<lambda>n. replay_handler pd ds (clk n)) 0 (file_lines disk)
                         (set_loading True st)))"
    using assms by (simp add: aof_Load_def i t e load_loop_clean [OF clean])
next
  assume "(\<exists>l \<in> set (raw_lines disk). MaxScanTokenSize \<le> length l)
          \<or> (\<exists>l \<in> set (file_lines disk). violates_grammar l)"
  then have "\<not> ((\<forall>l \<in> set (raw_lines disk). length l < MaxScanTokenSize)
          \<and> (\<forall>l \<in> set (file_lines disk). \<not> violates_grammar l))"
    by (blast dest: leD)
  then have "checkAOFIntegrity disk \<noteq> None"
    by (simp only: checkAOFIntegrity_None_iff not_False_eq_True)
  then obtain e where "checkAOFIntegrity disk = Some e" by auto
  then show "\<exists>e. aof_Load (\<lambda>n. replay_handler pd ds (clk n)) filename disk st
                    = Inl (IntegrityBeforeLoad e)"
    using assms by (simp add: aof_Load_def)
qed

theorem Load_replays_clean_log_and_rejects_malformed_witness:
  "aof_Load (\<lambda>n. replay_handler (\<lambda>t. None) (\<lambda>d. ''5s'') 0) ''aof.log''
      ''SET a b\<newline>\<newline>DELETE a\<newline>SET c d\<newline>''
      \<lparr>items = Map.empty,
       aof = Some \<lparr>logfile = Some ''SET a b\<newline>\<newline>DELETE a\<newline>SET c d\<newline>'', isLoading = False\<rparr>\<rparr>
     = Inr \<lparr>items = [''c'' \<mapsto> \<lparr>Value = VString ''d'', Expiration = None\<rparr>],
            aof = Some \<lparr>logfile = Some ''SET a b\<newline>\<newline>DELETE a\<newline>SET c d\<newline>'',
                        isLoading = False\<rparr>\<rparr>
   \<and> aof_Load (\<lambda>n. replay_handler (\<lambda>t. None) (\<lambda>d. ''5s'') 0) ''aof.log''
      ''SET a b\<newline>DELETE\<newline>''
      \<lparr>items = Map.empty, aof = Some \<lparr>logfile = Some ''SET a b\<newline>DELETE\<newline>'', isLoading = False\<rparr>\<rparr>
     = Inl (IntegrityBeforeLoad (InvalidFormat 2 ''DELETE''))
   \<and> aof_Load (\<lambda>n. replay_handler (\<lambda>t. None) (\<lambda>d. ''5s'') 0) ''aof.log''
      (replicate MaxScanTokenSize (CHR ''x''))
      \<lparr>items = Map.empty,
       aof = Some \<lparr>logfile = Some (replicate MaxScanTokenSize (CHR ''x'')),
                   isLoading = False\<rparr>\<rparr>
     = Inl (IntegrityBeforeLoad (ErrorScanning ErrTooLong))"
proof -
  let ?H = "\<lambda>n::nat. replay_handler (\<lambda>t. None) (\<lambda>d. ''5s'') 0"
  let ?good = "''SET a b\<newline>\<newline>DELETE a\<newline>SET c d\<newline>''"
  let ?bad = "''SET a b\<newline>DELETE\<newline>''"
  let ?long = "replicate MaxScanTokenSize (CHR ''x'')"
  let ?st = "\<lambda>d. \<lparr>items = Map.empty, aof = Some \<lparr>logfile = Some d, isLoading = False\<rparr>\<rparr>"
  have h: "''aof.log'' \<noteq> []" by simp
  have rg: "raw_lines ?good = [''SET a b'', [], ''DELETE a'', ''SET c d'']"
    by (simp add: raw_lines_def)
  have lg: "file_lines ?good = [''SET a b'', [], ''DELETE a'', ''SET c d'']"
    by (simp add: file_lines_def rg dropCR_def)
  have lb: "file_lines ?bad = [''SET a b'', ''DELETE'']"
    by (simp add: file_lines_def raw_lines_def dropCR_def)
  have "CHR 0x0A \<notin> set ?long" by simp
  then have rl: "raw_lines ?long = [?long]"
    unfolding raw_lines_def by (subst raw_from_no_newline) (simp_all add: MaxScanTokenSize_def)
  have clean: "(\<forall>l \<in> set (raw_lines ?good). length l < MaxScanTokenSize)
          \<and> (\<forall>l \<in> set (file_lines ?good). \<not> violates_grammar l)"
    by (simp add: rg lg MaxScanTokenSize_def violates_grammar_def Fields_def is_space_def
        ToUpper_def upper_char_def)
  have dirty: "(\<exists>l \<in> set (raw_lines ?bad). MaxScanTokenSize \<le> length l)
          \<or> (\<exists>l \<in> set (file_lines ?bad). violates_grammar l)"
    by (simp add: lb violates_grammar_def Fields_def is_space_def ToUpper_def upper_char_def)
  have long: "(\<exists>l \<in> set (raw_lines ?long). MaxScanTokenSize \<le> length l)
          \<or> (\<exists>l \<in> set (file_lines ?long). violates_grammar l)"
    by (simp add: rl)
  have g: "aof_Load ?H ''aof.log'' ?good (?st ?good)
     = Inr (set_loading False (replay_skipping ?H 0 (file_lines ?good) (set_loading True (?st ?good))))"
    using Load_replays_clean_log_and_rejects_malformed
            [OF h, of ?good "\<lambda>t. None" "\<lambda>d. ''5s''" "\<lambda>n. 0" "?st ?good"] clean
    by blast
  have b: "\<exists>e. aof_Load ?H ''aof.log'' ?bad (?st ?bad) = Inl (IntegrityBeforeLoad e)"
    using Load_replays_clean_log_and_rejects_malformed
            [OF h, of ?bad "\<lambda>t. None" "\<lambda>d. ''5s''" "\<lambda>n. 0" "?st ?bad"] dirty
    by blast
  have c: "\<exists>e. aof_Load ?H ''aof.log'' ?long (?st ?long) = Inl (IntegrityBeforeLoad e)"
    using Load_replays_clean_log_and_rejects_malformed
            [OF h, of ?long "\<lambda>t. None" "\<lambda>d. ''5s''" "\<lambda>n. 0" "?st ?long"] long
    by blast
  have g': "set_loading False (replay_skipping ?H 0 (file_lines ?good) (set_loading True (?st ?good)))
      = \<lparr>items = [''c'' \<mapsto> \<lparr>Value = VString ''d'', Expiration = None\<rparr>],
            aof = Some \<lparr>logfile = Some ?good, isLoading = False\<rparr>\<rparr>"
    by (simp add: lg set_loading_def TrimSpace_def Fields_def is_space_def ToUpper_def upper_char_def
        replay_handler_def set_args_def Set_def Delete_def recordCommand_def aof_Write_def)
  have b': "checkAOFIntegrity ?bad = Some (InvalidFormat 2 ''DELETE'')"
    by (simp add: checkAOFIntegrity_def scan_tokens_def scan_Err_def raw_lines_def
        MaxScanTokenSize_def dropCR_def check_line_def TrimSpace_def Fields_def is_space_def
        ToUpper_def upper_char_def)
  have c': "checkAOFIntegrity ?long = Some (ErrorScanning ErrTooLong)"
    by (simp add: checkAOFIntegrity_def scan_tokens_def scan_Err_def rl)
  show ?thesis
    using g g' b b' c c' by (simp add: aof_Load_def)
qed

subsection \<open>Facts about Join, Fields and the scanner\<close>



















subsection \<open>Stores with the same entries\<close>








subsection \<open>Every recorded line replays as its operation\<close>










subsection \<open>The log of a live store, and construction over a clean log\<close>






text \<open>
  A log with a line of 64 KiB or more cannot be opened: the integrity check of
  \<^verbatim>\<open>persistence.New\<close> returns an error, the one of a violating line before it or the
  scanner's.
\<close>

lemma too_long_line_fails_construction:
  assumes "fn \<noteq> []" and "\<exists>l \<in> set (raw_lines disk). MaxScanTokenSize \<le> length l"
  shows "\<exists>e. store_New pd ds clk fn disk = Inl (FailedToInitializeAOF e)"
proof -
  have "\<not> (\<forall>l \<in> set (raw_lines disk). length l < MaxScanTokenSize)"
    using assms(2) by (blast dest: leD)
  then have "checkAOFIntegrity disk \<noteq> None"
    by (simp add: checkAOFIntegrity_None_iff)
  then obtain e where "checkAOFIntegrity disk = Some e" by auto
  then show ?thesis
    using assms(1) by (simp add: store_New_def persistence_New_def)
qed







end
